theory Spec2Isabelle
  imports Complex_Main "HOL-Library.List_Lexorder" "HOL-Library.Sublist" "HOL-Library.Log_Nat"
begin

section \<open>Python strings and floats\<close>

text \<open>
  A Python \<^verbatim>\<open>str\<close> is a sequence of Unicode code points; it is modelled as a list of
  natural numbers, one per code point, so that \<^verbatim>\<open>len\<close> is \<open>length\<close> and the comparison of
  two strings is the lexicographic order of their code points.
\<close>

type_synonym pystr = "nat list"

definition str :: "string \<Rightarrow> pystr" where
  "str s = map of_char s"

text \<open>\<^verbatim>\<open>needle in haystack\<close> for two strings, and \<^verbatim>\<open>s.startswith(p)\<close>.\<close>

fun is_substring :: "pystr \<Rightarrow> pystr \<Rightarrow> bool" where
  "is_substring needle [] = (needle = [])"
| "is_substring needle (c # cs) = (prefix needle (c # cs) \<or> is_substring needle cs)"


text \<open>
  A finite Python \<^verbatim>\<open>float\<close> is an IEEE 754 binary64 number; it is modelled by its exact
  value, a rational. Every arithmetic operation returns the exact result rounded to the
  nearest binary64 number, ties to the even significand; \<open>round_to_double\<close> is that
  rounding (for results below the overflow threshold), computed on the numerator and the
  denominator of its argument.
\<close>

type_synonym double = rat

function bit_length :: "int \<Rightarrow> nat" where
  "bit_length n = (if n \<le> 0 then 0 else Suc (bit_length (n div 2)))"
  by pat_completeness auto
termination
  by (relation "measure nat") auto

definition pow2 :: "int \<Rightarrow> rat" where
  "pow2 e = (if 0 \<le> e then 2 ^ nat e else 1 / 2 ^ nat (- e))"

text \<open>The floor of the binary logarithm of \<open>p / q\<close>, for positive \<open>p\<close> and \<open>q\<close>.\<close>

definition ilog2 :: "int \<Rightarrow> int \<Rightarrow> int" where
  "ilog2 p q = (let d = int (bit_length p) - int (bit_length q) in
                if q * 2 ^ nat d \<le> p * 2 ^ nat (- d) then d else d - 1)"

text \<open>\<open>p / q\<close> rounded to the nearest integer, a tie to the even one (\<open>q\<close> positive).\<close>

definition round_div :: "int \<Rightarrow> int \<Rightarrow> int" where
  "round_div p q = (let f = p div q; r = p mod q in
     if 2 * r < q then f else if q < 2 * r then f + 1 else if even f then f else f + 1)"

definition round_to_double :: "rat \<Rightarrow> double" where
  "round_to_double x = (let (p, q) = quotient_of x in
     if p = 0 then 0 else
     let e = max (ilog2 \<bar>p\<bar> q - 52) (- 1074)
     in of_int (round_div (p * 2 ^ nat (- e)) (q * 2 ^ nat e)) * pow2 e)"

text \<open>A decimal literal of the source denotes the double nearest to it.\<close>

definition float_lit :: "rat \<Rightarrow> double" where
  "float_lit x = round_to_double x"

definition float_add :: "double \<Rightarrow> double \<Rightarrow> double" where
  "float_add a b = round_to_double (a + b)"

definition float_sub :: "double \<Rightarrow> double \<Rightarrow> double" where
  "float_sub a b = round_to_double (a - b)"

declare bit_length.simps [simp del]

text \<open>A rational rounded to the nearest integer, a tie to the even one.\<close>

definition nearest_even :: "rat \<Rightarrow> int" where
  "nearest_even y = (let f = \<lfloor>y\<rfloor>; d = y - of_int f in
     if d < 1 / 2 then f else if 1 / 2 < d then f + 1 else if even f then f else f + 1)"

text \<open>The exponent of the unit in the last place of the doubles nearest to a positive rational.\<close>

definition ulp_exponent :: "rat \<Rightarrow> int" where
  "ulp_exponent x = (let (p, q) = quotient_of x in max (ilog2 \<bar>p\<bar> q - 52) (- 1074))"

section \<open>intelligent_converter.py: the relevance score\<close>

text \<open>
  \<^verbatim>\<open>calculate_relevance_score\<close>. The variable \<^verbatim>\<open>score\<close> is updated by one statement after
  the other; \<^verbatim>\<open>any(tag in tags for tag in [...])\<close> is \<open>list_ex\<close> over the literal list.
\<close>

definition calculate_relevance_score ::
  "pystr \<Rightarrow> pystr \<Rightarrow> pystr list \<Rightarrow> pystr list \<Rightarrow> pystr list \<Rightarrow> double" where
  "calculate_relevance_score title description categories tags messages =
     (let score = float_lit (5 / 10);
          score = (if list_ex (\<lambda>cat. is_substring (str ''Project'') cat) categories
                   then float_add score (float_lit (2 / 10)) else score);
          score = (if list_ex (\<lambda>tag. tag \<in> set tags)
                        [str ''Framework'', str ''Template'', str ''System'']
                   then float_add score (float_lit (15 / 100)) else score);
          score = (if list_ex (\<lambda>tag. tag \<in> set tags)
                        [str ''Email Sequence'', str ''Landing Page'', str ''Sales Page'']
                   then float_add score (float_lit (15 / 100)) else score);
          score = (if length messages > 10
                   then float_add score (float_lit (1 / 10)) else score);
          score = (if str ''Business Strategy'' \<in> set categories \<or> str ''Analysis'' \<in> set tags
                   then float_add score (float_lit (1 / 10)) else score);
          score = (if categories = [str ''General Chat'']
                   then float_sub score (float_lit (2 / 10)) else score);
          score = (if length messages < 3
                   then float_sub score (float_lit (1 / 10)) else score)
      in min (max score (float_lit (1 / 10))) (float_lit 1))"

text \<open>The adjustments as the specification lists them: a term added or subtracted when
  its condition holds.\<close>

definition plus_if :: "bool \<Rightarrow> double \<Rightarrow> double \<Rightarrow> double" where
  "plus_if c d s = (if c then float_add s d else s)"

definition minus_if :: "bool \<Rightarrow> double \<Rightarrow> double \<Rightarrow> double" where
  "minus_if c d s = (if c then float_sub s d else s)"

section \<open>Regular expressions\<close>

text \<open>
  The fragment of Python's \<^verbatim>\<open>re\<close> that the source uses, with the semantics of a backtracking
  matcher: the alternatives of a pattern are tried in order, a repetition takes as many
  characters as it can and gives them back one at a time, and the first way through the
  whole pattern is the match. Repetition is over one character class, as in every pattern
  of the source. \<open>Grp\<close> is the one capturing group.
\<close>

datatype regex =
    Eps
  | Chr "nat \<Rightarrow> bool"
  | Star "nat \<Rightarrow> bool"
  | Seq regex regex
  | Alt regex regex
  | Grp regex

text \<open>\<open>star P s k\<close>: the longest run of \<open>P\<close> at the head of \<open>s\<close> first, then shorter ones,
  until the continuation \<open>k\<close> accepts the rest.\<close>

fun star :: "(nat \<Rightarrow> bool) \<Rightarrow> pystr \<Rightarrow> (pystr \<Rightarrow> 'a option) \<Rightarrow> 'a option" where
  "star P [] k = k []"
| "star P (c # cs) k =
     (if P c then (case star P cs k of Some r \<Rightarrow> Some r | None \<Rightarrow> k (c # cs))
      else k (c # cs))"

text \<open>\<open>rmatch r s g k\<close> matches \<open>r\<close> at the head of \<open>s\<close>; \<open>g\<close> is the text of the group so
  far, and \<open>k\<close> receives the rest of the string and the group.\<close>

fun rmatch ::
  "regex \<Rightarrow> pystr \<Rightarrow> pystr option \<Rightarrow> (pystr \<Rightarrow> pystr option \<Rightarrow> 'a option) \<Rightarrow> 'a option" where
  "rmatch Eps s g k = k s g"
| "rmatch (Chr P) s g k = (case s of [] \<Rightarrow> None | c # cs \<Rightarrow> if P c then k cs g else None)"
| "rmatch (Star P) s g k = star P s (\<lambda>s'. k s' g)"
| "rmatch (Seq a b) s g k = rmatch a s g (\<lambda>s' g'. rmatch b s' g' k)"
| "rmatch (Alt a b) s g k =
     (case rmatch a s g k of Some r \<Rightarrow> Some r | None \<Rightarrow> rmatch b s g k)"
| "rmatch (Grp a) s g k =
     rmatch a s g (\<lambda>s' g'. k s' (Some (take (length s - length s') s)))"

text \<open>A match at the head of the string: the number of characters matched and the group
  (the empty string when the group took no part, as \<^verbatim>\<open>findall\<close> reports it).\<close>

definition match_here :: "regex \<Rightarrow> pystr \<Rightarrow> (nat \<times> pystr) option" where
  "match_here r s =
     rmatch r s None (\<lambda>s' g. Some (length s - length s', case g of None \<Rightarrow> [] | Some t \<Rightarrow> t))"

text \<open>\<^verbatim>\<open>re.match\<close> and \<^verbatim>\<open>re.search\<close>, returning group 1 of the match.\<close>

definition re_match :: "regex \<Rightarrow> pystr \<Rightarrow> pystr option" where
  "re_match r s = map_option snd (match_here r s)"

fun re_search :: "regex \<Rightarrow> pystr \<Rightarrow> pystr option" where
  "re_search r [] = map_option snd (match_here r [])"
| "re_search r (c # cs) =
     (case match_here r (c # cs) of Some (n, g) \<Rightarrow> Some g | None \<Rightarrow> re_search r cs)"

text \<open>
  The scan of \<^verbatim>\<open>re.finditer\<close>: the leftmost match, then the leftmost match after its end,
  and so on; each match with the offset where it starts. After an empty match the scan
  moves on by one character.
\<close>

function re_finditer :: "regex \<Rightarrow> nat \<Rightarrow> pystr \<Rightarrow> (nat \<times> nat \<times> pystr) list" where
  "re_finditer r pos [] =
     (case match_here r [] of Some (n, g) \<Rightarrow> [(pos, n, g)] | None \<Rightarrow> [])"
| "re_finditer r pos (c # cs) =
     (case match_here r (c # cs) of
        Some (n, g) \<Rightarrow> (pos, n, g) # re_finditer r (pos + max 1 n) (drop (max 1 n) (c # cs))
      | None \<Rightarrow> re_finditer r (pos + 1) cs)"
  by pat_completeness auto
termination
  by (relation "measure (\<lambda>(r, pos, s). length s)") auto


text \<open>\<^verbatim>\<open>re.split\<close> for a pattern without a group: the pieces between the matches.\<close>

fun split_at :: "nat \<Rightarrow> pystr \<Rightarrow> (nat \<times> nat \<times> pystr) list \<Rightarrow> pystr list" where
  "split_at pos s [] = [s]"
| "split_at pos s ((start, n, g) # ms) =
     take (start - pos) s # split_at (start + n) (drop (start + n - pos) s) ms"

definition re_split :: "regex \<Rightarrow> pystr \<Rightarrow> pystr list" where
  "re_split r s = split_at 0 s (filter (\<lambda>(pos, n, g). 0 < n) (re_finditer r 0 s))"



definition Opt :: "regex \<Rightarrow> regex" where
  "Opt r = Alt r Eps"


definition is_digit :: "nat \<Rightarrow> bool" where
  "is_digit c \<longleftrightarrow> 48 \<le> c \<and> c \<le> 57"

definition quote :: nat where
  "quote = 34"


definition Q :: regex where
  "Q = Chr (\<lambda>c. c = quote)"


section \<open>Exceptions, Python values and the runtime\<close>

datatype exception = UnicodeEncodeError | UnicodeDecodeError | ValueError | OverflowError | OSError

text \<open>A \<^verbatim>\<open>float\<close> with its infinities, and the values that the field \<^verbatim>\<open>create_time\<close> of a
  parsed conversation can hold (\<open>PyOther\<close>: a list or a dict).\<close>

datatype pyfloat = Finite double | PosInf | NegInf | NaN

datatype pyval = PyNone | PyBool bool | PyInt int | PyFloat pyfloat | PyStr pystr | PyOther


section \<open>The codec round trip \<^verbatim>\<open>s.encode().decode('unicode_escape')\<close>\<close>













section \<open>intelligent_converter.py: the messages of a raw block\<close>








section \<open>The conversation record\<close>

text \<open>
  The dict built by \<^verbatim>\<open>extract_conversation_details\<close>. The field \<open>date\<close> is \<open>None\<close> when
  the dict has no key \<^verbatim>\<open>'date'\<close>, which is what \<^verbatim>\<open>conv.get('date', default)\<close> tests.
\<close>

record conversation =
  name :: pystr
  description :: pystr
  category :: "pystr list"
  tags :: "pystr list"
  date :: "pystr option"
  date_source :: pystr
  relevance_score :: rat
  message_volume :: nat

definition dict_get :: "'a option \<Rightarrow> 'a \<Rightarrow> 'a" where
  "dict_get v dflt = (case v of None \<Rightarrow> dflt | Some x \<Rightarrow> x)"

section \<open>batch_processor.py: duplicates and order\<close>

definition dedup_key :: "conversation \<Rightarrow> pystr \<times> pystr" where
  "dedup_key conv = (name conv, dict_get (date conv) (str ''''))"

text \<open>The loop over \<^verbatim>\<open>all_conversations\<close>, with its two variables \<^verbatim>\<open>seen\<close> and
  \<^verbatim>\<open>unique_conversations\<close> passed along.\<close>

fun dedup_loop ::
  "conversation list \<Rightarrow> (pystr \<times> pystr) set \<Rightarrow> conversation list \<Rightarrow> conversation list" where
  "dedup_loop [] seen unique_conversations = unique_conversations"
| "dedup_loop (conv # rest) seen unique_conversations =
     (let key = dedup_key conv in
      if key \<notin> seen
      then dedup_loop rest (insert key seen) (unique_conversations @ [conv])
      else dedup_loop rest seen unique_conversations)"

definition remove_duplicates :: "conversation list \<Rightarrow> conversation list" where
  "remove_duplicates all_conversations = dedup_loop all_conversations {} []"

text \<open>\<^verbatim>\<open>unique_conversations.sort(key=lambda x: x.get('date', '9999-99-99'))\<close>: a stable
  ascending sort on the key.\<close>

definition date_sort_key :: "conversation \<Rightarrow> pystr" where
  "date_sort_key x = dict_get (date x) (str ''9999-99-99'')"

definition sort_by_date :: "conversation list \<Rightarrow> conversation list" where
  "sort_by_date unique_conversations = sort_key date_sort_key unique_conversations"

definition batch_merge :: "conversation list \<Rightarrow> conversation list" where
  "batch_merge all_conversations = sort_by_date (remove_duplicates all_conversations)"

text \<open>What the loop appends to its accumulator, as a function of the keys already seen.\<close>

fun fresh :: "conversation list \<Rightarrow> (pystr \<times> pystr) set \<Rightarrow> conversation list" where
  "fresh [] seen = []"
| "fresh (conv # rest) seen =
     (if dedup_key conv \<in> seen then fresh rest seen
      else conv # fresh rest (insert (dedup_key conv) seen))"

text \<open>A record with the given name, date and description, for concrete runs.\<close>

definition sample_record :: "string \<Rightarrow> pystr option \<Rightarrow> string \<Rightarrow> conversation" where
  "sample_record n d descr =
     \<lparr>name = str n, description = str descr, category = [str ''General Chat''],
      tags = [str ''General''], date = d, date_source = str (if d = Some [] \<or> d = None then ''missing'' else ''exact''),
      relevance_score = 1 / 2, message_volume = 0\<rparr>"

section \<open>Properties of the duplicate removal\<close>

lemma dedup_loop_fresh: "dedup_loop xs seen acc = acc @ fresh xs seen"
  by (induction xs arbitrary: seen acc) (simp_all add: Let_def)

lemma fresh_keys: "dedup_key ` set (fresh xs seen) = dedup_key ` set xs - seen"
  by (induction xs arbitrary: seen) auto

lemma fresh_distinct: "distinct (map dedup_key (fresh xs seen))"
proof (induction xs arbitrary: seen)
  case Nil
  show ?case by simp
next
  case (Cons x xs)
  have "dedup_key x \<notin> dedup_key ` set (fresh xs (insert (dedup_key x) seen))"
    by (simp add: fresh_keys)
  with Cons show ?case by simp
qed

lemma fresh_first:
  "r \<in> set (fresh xs seen) \<Longrightarrow> find (\<lambda>c. dedup_key c = dedup_key r) xs = Some r"
proof (induction xs arbitrary: seen)
  case Nil
  then show ?case by simp
next
  case (Cons x xs)
  show ?case
  proof (cases "dedup_key x \<in> seen")
    case True
    with Cons.prems have r: "r \<in> set (fresh xs seen)" by simp
    then have "dedup_key r \<in> dedup_key ` set (fresh xs seen)" by blast
    then have "dedup_key r \<notin> seen" by (simp add: fresh_keys)
    with True have "dedup_key x \<noteq> dedup_key r" by auto
    with Cons.IH [OF r] show ?thesis by simp
  next
    case False
    with Cons.prems have "r = x \<or> r \<in> set (fresh xs (insert (dedup_key x) seen))" by simp
    then show ?thesis
    proof
      assume "r = x"
      then show ?thesis by simp
    next
      assume r: "r \<in> set (fresh xs (insert (dedup_key x) seen))"
      then have "dedup_key r \<in> dedup_key ` set (fresh xs (insert (dedup_key x) seen))" by blast
      then have "dedup_key x \<noteq> dedup_key r" by (auto simp add: fresh_keys)
      with Cons.IH [OF r] show ?thesis by simp
    qed
  qed
qed

lemma upt_0_Suc: "[0..<Suc n] = 0 # map Suc [0..<n]"
  by (simp add: upt_conv_Cons map_Suc_upt del: upt_Suc)

lemma fresh_by_position:
  "fresh xs seen =
     map (\<lambda>i. xs ! i)
       (filter (\<lambda>i. dedup_key (xs ! i) \<notin> seen \<and> (\<forall>j<i. dedup_key (xs ! j) \<noteq> dedup_key (xs ! i)))
          [0..<length xs])"
proof (induction xs arbitrary: seen)
  case Nil
  show ?case by simp
next
  case (Cons x xs)
  have shift: "map (\<lambda>i. (x # xs) ! i) (filter P (map Suc l)) = map (\<lambda>i. xs ! i) (filter (\<lambda>i. P (Suc i)) l)"
    for P l
    by (simp add: filter_map comp_def)
  have all_Suc: "(\<forall>j<Suc i. Q j) \<longleftrightarrow> Q 0 \<and> (\<forall>j<i. Q (Suc j))" for i Q
    by (metis less_Suc_eq_0_disj)
  show ?case
  proof (cases "dedup_key x \<in> seen")
    case True
    have "filter (\<lambda>i. dedup_key (xs ! i) \<notin> seen \<and>
             (\<forall>j<Suc i. dedup_key ((x # xs) ! j) \<noteq> dedup_key (xs ! i))) [0..<length xs]
        = filter (\<lambda>i. dedup_key (xs ! i) \<notin> seen \<and>
             (\<forall>j<i. dedup_key (xs ! j) \<noteq> dedup_key (xs ! i))) [0..<length xs]"
      using True by (intro filter_cong refl) (auto simp add: all_Suc)
    with True show ?thesis
      by (simp add: Cons.IH upt_0_Suc shift del: upt_Suc)
  next
    case False
    have "filter (\<lambda>i. dedup_key (xs ! i) \<notin> seen \<and>
             (\<forall>j<Suc i. dedup_key ((x # xs) ! j) \<noteq> dedup_key (xs ! i))) [0..<length xs]
        = filter (\<lambda>i. dedup_key (xs ! i) \<notin> insert (dedup_key x) seen \<and>
             (\<forall>j<i. dedup_key (xs ! j) \<noteq> dedup_key (xs ! i))) [0..<length xs]"
      by (intro filter_cong refl) (auto simp add: all_Suc)
    with False show ?thesis
      by (simp add: Cons.IH upt_0_Suc shift del: upt_Suc)
  qed
qed

lemma filter_distinct_key:
  "distinct (map g ys) \<Longrightarrow> f \<in> set ys \<Longrightarrow> filter (\<lambda>c. g c = g f) ys = [f]"
proof (induction ys)
  case Nil
  then show ?case by simp
next
  case (Cons y ys)
  show ?case
  proof (cases "f = y")
    case True
    from Cons.prems have "g y \<notin> g ` set ys" by simp
    then have "\<forall>c \<in> set ys. g c \<noteq> g y" by (metis imageI)
    then have "filter (\<lambda>c. g c = g y) ys = []"
      by (simp add: filter_empty_conv)
    with True show ?thesis by simp
  next
    case False
    with Cons.prems have f: "f \<in> set ys" by simp
    with Cons.prems have "g y \<noteq> g f" by auto
    with Cons f show ?thesis by simp
  qed
qed

text \<open>
  Claim C7. The duplicate removal of the batch run returns exactly the records of the input
  at the positions where no earlier record has the same name and the same date (the date
  read with the default of the empty string), in the order of the input and unchanged. So
  for every record of the input exactly one record with its name and date survives, and
  it is the first record of the input with this name and date.
\<close>

theorem remove_duplicates_first_wins:
  "remove_duplicates xs =
     map (\<lambda>i. xs ! i)
       (filter (\<lambda>i. \<forall>j<i. \<not> (name (xs ! j) = name (xs ! i)
                    \<and> dict_get (date (xs ! j)) (str '''') = dict_get (date (xs ! i)) (str '''')))
          [0..<length xs])
   \<and> (\<forall>r \<in> set xs. \<exists>f.
         find (\<lambda>c. name c = name r
                 \<and> dict_get (date c) (str '''') = dict_get (date r) (str '''')) xs = Some f
         \<and> filter (\<lambda>c. name c = name r
                 \<and> dict_get (date c) (str '''') = dict_get (date r) (str ''''))
              (remove_duplicates xs) = [f])"
proof -
  have eq: "remove_duplicates xs = fresh xs {}"
    by (simp add: remove_duplicates_def dedup_loop_fresh)
  have key: "(dedup_key c = dedup_key r) \<longleftrightarrow>
      (name c = name r \<and> dict_get (date c) (str '''') = dict_get (date r) (str ''''))" for c r
    by (simp add: dedup_key_def)
  have pos: "remove_duplicates xs =
     map (\<lambda>i. xs ! i)
       (filter (\<lambda>i. \<forall>j<i. \<not> (name (xs ! j) = name (xs ! i)
                    \<and> dict_get (date (xs ! j)) (str '''') = dict_get (date (xs ! i)) (str '''')))
          [0..<length xs])"
    unfolding eq fresh_by_position [of xs "{}"] by (simp add: key)
  have one: "\<exists>f. find (\<lambda>c. name c = name r
                 \<and> dict_get (date c) (str '''') = dict_get (date r) (str '''')) xs = Some f
         \<and> filter (\<lambda>c. name c = name r
                 \<and> dict_get (date c) (str '''') = dict_get (date r) (str ''''))
              (remove_duplicates xs) = [f]" if r: "r \<in> set xs" for r
  proof -
    from r have "dedup_key r \<in> dedup_key ` set (fresh xs {})" by (simp add: fresh_keys)
    then obtain f where f: "f \<in> set (fresh xs {})" "dedup_key f = dedup_key r" by auto
    from fresh_first [OF f(1)] f(2)
    have "find (\<lambda>c. dedup_key c = dedup_key r) xs = Some f" by simp
    moreover from filter_distinct_key [OF fresh_distinct f(1)] f(2)
    have "filter (\<lambda>c. dedup_key c = dedup_key r) (fresh xs {}) = [f]" by simp
    ultimately show ?thesis by (simp add: key eq)
  qed
  from pos one show ?thesis by blast
qed

theorem remove_duplicates_first_wins_witness:
  "remove_duplicates
     [sample_record ''A'' (Some (str ''2024-01-01'')) ''from file one'',
      sample_record ''B'' (Some (str '''')) ''other'',
      sample_record ''A'' (Some (str ''2024-01-01'')) ''from file two'',
      sample_record ''A'' (Some (str ''2024-01-02'')) ''another day'',
      sample_record ''B'' None ''no date key'']
   = [sample_record ''A'' (Some (str ''2024-01-01'')) ''from file one'',
      sample_record ''B'' (Some (str '''')) ''other'',
      sample_record ''A'' (Some (str ''2024-01-02'')) ''another day'']
   \<and> find (\<lambda>c. name c = str ''A'' \<and> dict_get (date c) (str '''') = str ''2024-01-01'')
          [sample_record ''A'' (Some (str ''2024-01-01'')) ''from file one'',
           sample_record ''B'' (Some (str '''')) ''other'',
           sample_record ''A'' (Some (str ''2024-01-01'')) ''from file two'',
           sample_record ''A'' (Some (str ''2024-01-02'')) ''another day'',
           sample_record ''B'' None ''no date key'']
       = Some (sample_record ''A'' (Some (str ''2024-01-01'')) ''from file one'')"
  using remove_duplicates_first_wins
    [of "[sample_record ''A'' (Some (str ''2024-01-01'')) ''from file one'',
          sample_record ''B'' (Some (str '''')) ''other'',
          sample_record ''A'' (Some (str ''2024-01-01'')) ''from file two'',
          sample_record ''A'' (Some (str ''2024-01-02'')) ''another day'',
          sample_record ''B'' None ''no date key'']"]
  by (simp add: remove_duplicates_def dedup_key_def dict_get_def sample_record_def str_def)

text \<open>
  Claim C3, run on the records of the claim: the sort puts the record with the empty date
  first, since its key is the empty string and the sentinel stands in only for a dict
  without the key.
\<close>

theorem sort_by_date_empty_first:
  "map date (sort_by_date
     [sample_record ''a'' (Some (str ''2024-03-01'')) '''',
      sample_record ''b'' (Some (str '''')) '''',
      sample_record ''c'' (Some (str ''2024-01-01'')) ''''])
   = [Some (str ''''), Some (str ''2024-01-01''), Some (str ''2024-03-01'')]"
  by (simp add: sort_by_date_def date_sort_key_def dict_get_def sample_record_def str_def)

lemma sort_by_date_sorted: "sorted (map date_sort_key (sort_by_date xs))"
  by (simp add: sort_by_date_def)

section \<open>Rounding to a double is monotone\<close>

lemma pow2_powi: "pow2 e = 2 powi e"
  by (simp add: pow2_def power_int_def power_one_over)

lemma bit_length_bounds: "0 < n \<Longrightarrow> 2 ^ (bit_length n - 1) \<le> n \<and> n < 2 ^ bit_length n"
proof (induction n rule: bit_length.induct)
  case (1 n)
  show ?case
  proof (cases "n div 2 \<le> 0")
    case True
    with 1(2) have n: "n = 1" by linarith
    have "bit_length 1 = Suc 0"
      by (simp add: bit_length.simps [of 1] bit_length.simps [of 0])
    with n show ?thesis by simp
  next
    case False
    then have pos: "0 < n div 2" by simp
    from 1(1) 1(2) pos have ih: "2 ^ (bit_length (n div 2) - 1) \<le> n div 2"
      "n div 2 < 2 ^ bit_length (n div 2)" by simp_all
    have bl: "bit_length n = Suc (bit_length (n div 2))"
      using 1(2) by (simp add: bit_length.simps [of n])
    have ge1: "0 < bit_length (n div 2)"
      using pos by (simp add: bit_length.simps [of "n div 2"])
    then have "(2::int) ^ bit_length (n div 2) = 2 * 2 ^ (bit_length (n div 2) - 1)"
      by (cases "bit_length (n div 2)") simp_all
    with ih(1) have lo: "2 ^ bit_length (n div 2) \<le> n" by linarith
    from ih(2) have hi: "n < 2 * 2 ^ bit_length (n div 2)" by linarith
    from lo hi bl show ?thesis by simp
  qed
qed

lemma nearest_even_of_int: "nearest_even (of_int n) = n"
  by (simp add: nearest_even_def)

lemma nearest_even_bounds: "\<lfloor>y\<rfloor> \<le> nearest_even y \<and> nearest_even y \<le> \<lfloor>y\<rfloor> + 1"
  by (simp add: nearest_even_def Let_def)

lemma nearest_even_mono: "y \<le> z \<Longrightarrow> nearest_even y \<le> nearest_even z"
proof -
  assume yz: "y \<le> z"
  then have fl: "\<lfloor>y\<rfloor> \<le> \<lfloor>z\<rfloor>" by (rule floor_mono)
  show ?thesis
  proof (cases "\<lfloor>y\<rfloor> = \<lfloor>z\<rfloor>")
    case True
    with yz have "y - of_int \<lfloor>y\<rfloor> \<le> z - of_int \<lfloor>z\<rfloor>" by simp
    with True show ?thesis
      by (auto simp add: nearest_even_def Let_def)
  next
    case False
    with fl have "\<lfloor>y\<rfloor> + 1 \<le> \<lfloor>z\<rfloor>" by simp
    with nearest_even_bounds [of y] nearest_even_bounds [of z] show ?thesis by linarith
  qed
qed

lemma round_div_nearest_even:
  "0 < q \<Longrightarrow> round_div p q = nearest_even (of_int p / of_int q)"
proof -
  assume q: "0 < q"
  have f: "\<lfloor>(of_int p / of_int q :: rat)\<rfloor> = p div q" by (rule floor_divide_of_int_eq)
  have "(of_int p :: rat) = of_int (p div q) * of_int q + of_int (p mod q)"
    by (metis of_int_add of_int_mult div_mult_mod_eq)
  with q have d: "(of_int p / of_int q :: rat) - of_int (p div q) = of_int (p mod q) / of_int q"
    by (simp add: field_simps)
  have c1: "(of_int (p mod q) / of_int q < (1 / 2 :: rat)) \<longleftrightarrow> 2 * (p mod q) < q"
  proof -
    have "(of_int (p mod q) / of_int q < (1 / 2 :: rat)) \<longleftrightarrow> (of_int (2 * (p mod q)) :: rat) < of_int q"
      using q by (simp add: field_simps)
    then show ?thesis by (simp only: of_int_less_iff)
  qed
  have c2: "((1 / 2 :: rat) < of_int (p mod q) / of_int q) \<longleftrightarrow> q < 2 * (p mod q)"
  proof -
    have "((1 / 2 :: rat) < of_int (p mod q) / of_int q) \<longleftrightarrow> (of_int q :: rat) < of_int (2 * (p mod q))"
      using q by (simp add: field_simps)
    then show ?thesis by (simp only: of_int_less_iff)
  qed
  show ?thesis
    unfolding round_div_def nearest_even_def Let_def f d c1 c2 by (rule refl)
qed

lemma bit_length_powi:
  assumes "0 < n"
  shows "(2::rat) powi (int (bit_length n) - 1) \<le> of_int n" "(of_int n :: rat) < 2 powi int (bit_length n)"
proof -
  from bit_length_bounds [OF assms]
  have lo: "2 ^ (bit_length n - 1) \<le> n" and hi: "n < 2 ^ bit_length n" by simp_all
  have pos: "0 < bit_length n"
    using assms by (simp add: bit_length.simps [of n])
  then have e: "int (bit_length n) - 1 = int (bit_length n - 1)" by simp
  from lo have "(of_int (2 ^ (bit_length n - 1)) :: rat) \<le> of_int n" by (simp only: of_int_le_iff)
  then show "(2::rat) powi (int (bit_length n) - 1) \<le> of_int n" by (simp add: e)
  from hi have "(of_int n :: rat) < of_int (2 ^ bit_length n)" by (simp only: of_int_less_iff)
  then show "(of_int n :: rat) < 2 powi int (bit_length n)" by simp
qed

lemma ilog2_test:
  "(q * 2 ^ nat d \<le> p * 2 ^ nat (- d)) \<longleftrightarrow> ((2::rat) powi d * of_int q \<le> of_int p)"
proof (cases "0 \<le> d")
  case True
  then have "(2::rat) powi d = of_int (2 ^ nat d)" by (simp add: power_int_def)
  then have "((2::rat) powi d * of_int q \<le> of_int p) \<longleftrightarrow> (of_int (q * 2 ^ nat d) :: rat) \<le> of_int p"
    by (simp add: mult.commute)
  also have "\<dots> \<longleftrightarrow> q * 2 ^ nat d \<le> p" by (simp only: of_int_le_iff)
  finally show ?thesis using True by simp
next
  case False
  have M: "(0::rat) < 2 ^ nat (- d)" by simp
  have "(2::rat) powi d * of_int q = of_int q / 2 ^ nat (- d)"
    using False by (simp add: power_int_def power_one_over)
  then have "((2::rat) powi d * of_int q \<le> of_int p) \<longleftrightarrow> (of_int q :: rat) \<le> of_int p * 2 ^ nat (- d)"
    by (simp only: pos_divide_le_eq [OF M])
  also have "\<dots> \<longleftrightarrow> (of_int q :: rat) \<le> of_int (p * 2 ^ nat (- d))" by simp
  also have "\<dots> \<longleftrightarrow> q \<le> p * 2 ^ nat (- d)" by (simp only: of_int_le_iff)
  finally show ?thesis using False by simp
qed

lemma ilog2_bounds:
  assumes p: "0 < p" and q: "0 < q"
  shows "(2::rat) powi ilog2 p q * of_int q \<le> of_int p"
    and "(of_int p :: rat) < 2 powi (ilog2 p q + 1) * of_int q"
proof -
  define d where "d = int (bit_length p) - int (bit_length q)"
  note bp = bit_length_powi [OF p] and bq = bit_length_powi [OF q]
  have Q: "(0::rat) < of_int q" using q by simp
  have up: "(of_int p :: rat) < 2 powi (d + 1) * of_int q"
  proof -
    have "(2::rat) powi int (bit_length p) = 2 powi (d + 1) * 2 powi (int (bit_length q) - 1)"
      by (simp add: d_def flip: power_int_add)
    also have "\<dots> \<le> 2 powi (d + 1) * of_int q"
      using bq(1) by (intro mult_left_mono) simp_all
    finally show ?thesis using bp(2) by linarith
  qed
  have lo: "(2::rat) powi (d - 1) * of_int q \<le> of_int p"
  proof -
    have "(2::rat) powi (d - 1) * of_int q \<le> 2 powi (d - 1) * 2 powi int (bit_length q)"
      using bq(2) by (intro mult_left_mono) simp_all
    also have "\<dots> = 2 powi ((d - 1) + int (bit_length q))"
      by (rule power_int_add [symmetric]) simp
    also have "(d - 1) + int (bit_length q) = int (bit_length p) - 1"
      by (simp add: d_def)
    finally show ?thesis using bp(1) by linarith
  qed
  show "(2::rat) powi ilog2 p q * of_int q \<le> of_int p"
    using lo by (simp add: ilog2_def Let_def ilog2_test d_def [symmetric])
  show "(of_int p :: rat) < 2 powi (ilog2 p q + 1) * of_int q"
    using up by (simp add: ilog2_def Let_def ilog2_test d_def [symmetric] not_le)
qed

lemma round_to_double_pos:
  assumes "0 < x"
  obtains L where "(2::rat) powi L \<le> x" "x < 2 powi (L + 1)"
    "ulp_exponent x = max (L - 52) (- 1074)"
    "round_to_double x = of_int (nearest_even (x / 2 powi ulp_exponent x)) * 2 powi ulp_exponent x"
proof -
  obtain p q where pq: "quotient_of x = (p, q)" by (cases "quotient_of x")
  have q: "0 < q" by (rule quotient_of_denom_pos [OF pq])
  have x: "x = of_int p / of_int q" by (rule quotient_of_div [OF pq])
  have p: "0 < p" using assms q by (simp add: x zero_less_divide_iff)
  define L where "L = ilog2 p q"
  define e where "e = max (L - 52) (- 1074)"
  have Q: "(0::rat) < of_int q" using q by simp
  from ilog2_bounds [OF p q]
  have b1: "(2::rat) powi L \<le> x" and b2: "x < 2 powi (L + 1)"
    using Q by (simp_all add: x L_def pos_le_divide_eq pos_divide_less_eq)
  have ue: "ulp_exponent x = e"
    using p by (simp add: ulp_exponent_def pq L_def e_def)
  have ratio: "(of_int (p * 2 ^ nat (- e)) :: rat) / of_int (q * 2 ^ nat e) = x / 2 powi e"
  proof (cases "0 \<le> e")
    case True
    then show ?thesis by (simp add: x power_int_def)
  next
    case False
    then show ?thesis by (simp add: x power_int_def power_one_over)
  qed
  have den: "0 < q * 2 ^ nat e" using q by simp
  have "round_to_double x = of_int (round_div (p * 2 ^ nat (- e)) (q * 2 ^ nat e)) * pow2 e"
    using p by (simp add: round_to_double_def pq Let_def e_def L_def)
  also have "\<dots> = of_int (nearest_even (x / 2 powi e)) * 2 powi e"
    by (simp only: round_div_nearest_even [OF den] ratio pow2_powi)
  finally have r: "round_to_double x = of_int (nearest_even (x / 2 powi ulp_exponent x)) * 2 powi ulp_exponent x"
    by (simp only: ue)
  from b1 b2 ue r that show thesis by (simp add: e_def)
qed

lemma round_to_double_mono:
  assumes x: "0 < x" and xy: "x \<le> y"
  shows "round_to_double x \<le> round_to_double y"
proof -
  from x xy have y: "0 < y" by simp
  obtain Lx where Lx: "(2::rat) powi Lx \<le> x" "x < 2 powi (Lx + 1)"
    "ulp_exponent x = max (Lx - 52) (- 1074)"
    "round_to_double x = of_int (nearest_even (x / 2 powi ulp_exponent x)) * 2 powi ulp_exponent x"
    by (rule round_to_double_pos [OF x])
  obtain Ly where Ly: "(2::rat) powi Ly \<le> y" "y < 2 powi (Ly + 1)"
    "ulp_exponent y = max (Ly - 52) (- 1074)"
    "round_to_double y = of_int (nearest_even (y / 2 powi ulp_exponent y)) * 2 powi ulp_exponent y"
    by (rule round_to_double_pos [OF y])
  define ex where "ex = ulp_exponent x"
  define ey where "ey = ulp_exponent y"
  have LxLy: "Lx \<le> Ly"
  proof (rule ccontr)
    assume "\<not> Lx \<le> Ly"
    then have "Ly + 1 \<le> Lx" by simp
    then have "(2::rat) powi (Ly + 1) \<le> 2 powi Lx" by (intro power_int_increasing) simp_all
    with Lx(1) xy Ly(2) show False by linarith
  qed
  then have exey: "ex \<le> ey" by (simp add: ex_def ey_def Lx(3) Ly(3))
  show ?thesis
  proof (cases "ex = ey")
    case True
    have pos: "(0::rat) < 2 powi ey" by simp
    from xy pos have "x / 2 powi ey \<le> y / 2 powi ey" by (simp add: divide_right_mono)
    then have "nearest_even (x / 2 powi ey) \<le> nearest_even (y / 2 powi ey)"
      by (rule nearest_even_mono)
    then have "(of_int (nearest_even (x / 2 powi ey)) :: rat) * 2 powi ey
        \<le> of_int (nearest_even (y / 2 powi ey)) * 2 powi ey"
      by (intro mult_right_mono) simp_all
    then show ?thesis
      using True by (simp add: Lx(4) Ly(4) ex_def [symmetric] ey_def [symmetric])
  next
    case False
    with exey have lt: "ex < ey" by simp
    then have eyL: "ey = Ly - 52" and LL: "Lx < Ly"
      by (auto simp add: ex_def ey_def Lx(3) Ly(3))
    have exL: "ex < Ly - 52" using lt eyL by simp
    have "x < 2 powi Ly"
    proof -
      from LL have "(2::rat) powi (Lx + 1) \<le> 2 powi Ly" by (intro power_int_increasing) simp_all
      with Lx(2) show ?thesis by linarith
    qed
    have n: "(2::rat) powi (Ly - ex) = of_int (2 ^ nat (Ly - ex))"
      using exL by (simp add: power_int_def)
    have "x / 2 powi ex \<le> 2 powi Ly / 2 powi ex"
      using \<open>x < 2 powi Ly\<close> by (simp add: divide_right_mono)
    also have "\<dots> = 2 powi (Ly - ex)" by (simp add: power_int_diff)
    finally have "nearest_even (x / 2 powi ex) \<le> nearest_even (of_int (2 ^ nat (Ly - ex)))"
      unfolding n by (rule nearest_even_mono)
    then have "nearest_even (x / 2 powi ex) \<le> 2 ^ nat (Ly - ex)"
      by (simp only: nearest_even_of_int)
    then have "(of_int (nearest_even (x / 2 powi ex)) :: rat) \<le> of_int (2 ^ nat (Ly - ex))"
      by (simp only: of_int_le_iff)
    then have "(of_int (nearest_even (x / 2 powi ex)) :: rat) * 2 powi ex \<le> 2 powi (Ly - ex) * 2 powi ex"
      unfolding n by (intro mult_right_mono) simp_all
    also have "\<dots> = 2 powi Ly"
      by (simp flip: power_int_add)
    finally have lo: "round_to_double x \<le> 2 powi Ly"
      by (simp add: Lx(4) ex_def [symmetric])
    have m: "(2::rat) powi (Ly - ey) = of_int (2 ^ 52)"
      by (simp add: eyL)
    have "2 powi (Ly - ey) = (2::rat) powi Ly / 2 powi ey" by (simp add: power_int_diff)
    also have "\<dots> \<le> y / 2 powi ey"
      using Ly(1) by (simp add: divide_right_mono)
    finally have "nearest_even (of_int (2 ^ 52)) \<le> nearest_even (y / 2 powi ey)"
      unfolding m by (rule nearest_even_mono)
    then have "2 ^ 52 \<le> nearest_even (y / 2 powi ey)"
      by (simp only: nearest_even_of_int)
    then have "(of_int (2 ^ 52) :: rat) \<le> of_int (nearest_even (y / 2 powi ey))"
      by (simp only: of_int_le_iff)
    then have "(2::rat) powi (Ly - ey) * 2 powi ey \<le> of_int (nearest_even (y / 2 powi ey)) * 2 powi ey"
      unfolding m by (intro mult_right_mono) simp_all
    moreover have "(2::rat) powi (Ly - ey) * 2 powi ey = 2 powi Ly"
      by (simp flip: power_int_add)
    ultimately have "2 powi Ly \<le> round_to_double y"
      by (simp add: Ly(4) ey_def [symmetric])
    with lo show ?thesis by linarith
  qed
qed

section \<open>The relevance score\<close>

text \<open>The literals of \<^verbatim>\<open>calculate_relevance_score\<close> as doubles, and the three differences
  on the way to the smallest score.\<close>

lemma float_lit_half: "float_lit (5 / 10) = 1 / 2"
  by code_simp

lemma float_lit_fifth: "float_lit (2 / 10) = 3602879701896397 / 18014398509481984"
  by code_simp

lemma float_lit_015: "float_lit (15 / 100) = 5404319552844595 / 36028797018963968"
  by code_simp

lemma float_lit_tenth: "float_lit (1 / 10) = 3602879701896397 / 36028797018963968"
  by code_simp

lemma float_lit_one: "float_lit 1 = 1"
  by code_simp

lemma round_half: "round_to_double (1 / 2) = 1 / 2"
  by code_simp

lemma round_half_minus_fifth:
  "round_to_double (1 / 2 - 3602879701896397 / 18014398509481984)
     = 5404319552844595 / 18014398509481984"
  by code_simp

lemma round_03_minus_tenth:
  "round_to_double (5404319552844595 / 18014398509481984 - 3602879701896397 / 36028797018963968)
     = 7205759403792793 / 36028797018963968"
  by code_simp

text \<open>The function as the chain of its seven updates and the final clamp to the range from 0.1 to 1.0.\<close>

lemma calculate_relevance_score_chain:
  "calculate_relevance_score title descr cats tgs msgs =
     min (max
       (minus_if (length msgs < 3) (float_lit (1 / 10))
       (minus_if (cats = [str ''General Chat'']) (float_lit (2 / 10))
       (plus_if (str ''Business Strategy'' \<in> set cats \<or> str ''Analysis'' \<in> set tgs) (float_lit (1 / 10))
       (plus_if (10 < length msgs) (float_lit (1 / 10))
       (plus_if (list_ex (\<lambda>tag. tag \<in> set tgs)
                  [str ''Email Sequence'', str ''Landing Page'', str ''Sales Page'']) (float_lit (15 / 100))
       (plus_if (list_ex (\<lambda>tag. tag \<in> set tgs)
                  [str ''Framework'', str ''Template'', str ''System'']) (float_lit (15 / 100))
       (plus_if (list_ex (\<lambda>cat. is_substring (str ''Project'') cat) cats) (float_lit (2 / 10))
          (float_lit (5 / 10))))))))) (float_lit (1 / 10))) (float_lit 1)"
  unfolding calculate_relevance_score_def plus_if_def minus_if_def Let_def
  by (rule refl)

lemma plus_if_lower: "1 / 2 \<le> s \<Longrightarrow> 0 \<le> d \<Longrightarrow> 1 / 2 \<le> plus_if c d s"
proof (cases c)
  case True
  assume "1 / 2 \<le> s" "0 \<le> d"
  then have "1 / 2 \<le> s + d" by simp
  then have "round_to_double (1 / 2) \<le> round_to_double (s + d)"
    by (intro round_to_double_mono) simp_all
  with True show ?thesis by (simp add: plus_if_def float_add_def round_half)
next
  case False
  assume "1 / 2 \<le> s"
  with False show ?thesis by (simp add: plus_if_def)
qed

lemma minus_fifth_lower:
  assumes "1 / 2 \<le> s"
  shows "5404319552844595 / 18014398509481984 \<le> minus_if c (float_lit (2 / 10)) s"
proof (cases c)
  case True
  from assms have "1 / 2 - 3602879701896397 / 18014398509481984 \<le> s - 3602879701896397 / 18014398509481984"
    by simp
  then have "round_to_double (1 / 2 - 3602879701896397 / 18014398509481984)
      \<le> round_to_double (s - 3602879701896397 / 18014398509481984)"
    by (intro round_to_double_mono) simp_all
  with True show ?thesis
    by (simp only: minus_if_def float_sub_def float_lit_fifth round_half_minus_fifth if_True)
next
  case False
  with assms show ?thesis by (simp add: minus_if_def)
qed

lemma minus_tenth_lower:
  assumes "5404319552844595 / 18014398509481984 \<le> s"
  shows "7205759403792793 / 36028797018963968 \<le> minus_if c (float_lit (1 / 10)) s"
proof (cases c)
  case True
  from assms have "5404319552844595 / 18014398509481984 - 3602879701896397 / 36028797018963968
      \<le> s - 3602879701896397 / 36028797018963968"
    by simp
  then have "round_to_double (5404319552844595 / 18014398509481984 - 3602879701896397 / 36028797018963968)
      \<le> round_to_double (s - 3602879701896397 / 36028797018963968)"
    by (intro round_to_double_mono) simp_all
  with True show ?thesis
    by (simp only: minus_if_def float_sub_def float_lit_tenth round_03_minus_tenth if_True)
next
  case False
  with assms show ?thesis by (simp add: minus_if_def)
qed

lemma score_before_clamp_lower:
  "7205759403792793 / 36028797018963968 \<le>
     minus_if c7 (float_lit (1 / 10))
       (minus_if c6 (float_lit (2 / 10))
       (plus_if c5 (float_lit (1 / 10))
       (plus_if c4 (float_lit (1 / 10))
       (plus_if c3 (float_lit (15 / 100))
       (plus_if c2 (float_lit (15 / 100))
       (plus_if c1 (float_lit (2 / 10)) (float_lit (5 / 10))))))))"
proof -
  have p2: "(0::rat) \<le> float_lit (2 / 10)" by (subst float_lit_fifth) simp
  have p15: "(0::rat) \<le> float_lit (15 / 100)" by (subst float_lit_015) simp
  have p1: "(0::rat) \<le> float_lit (1 / 10)" by (subst float_lit_tenth) simp
  have h: "(1 / 2 :: rat) \<le> float_lit (5 / 10)" by (subst float_lit_half) simp
  show ?thesis
    by (intro minus_tenth_lower minus_fifth_lower plus_if_lower h p1 p2 p15)
qed




lemma lowest_score:
  "min (max (float_sub (float_sub (float_lit (5 / 10)) (float_lit (2 / 10))) (float_lit (1 / 10)))
        (float_lit (1 / 10))) (float_lit 1) = 7205759403792793 / 36028797018963968"
  by code_simp

text \<open>
  Claim C10, as stated, fails: a conversation in the only category "General Chat" with
  fewer than 3 messages and no boost scores 0.5 - 0.2 - 0.1, which in double arithmetic is
  0.19999999999999998, below 0.2.
\<close>

theorem relevance_score_below_fifth:
  "calculate_relevance_score (str ''Hi'') (str '''') [str ''General Chat''] [str ''General''] []
     = 7205759403792793 / 36028797018963968
   \<and> calculate_relevance_score (str ''Hi'') (str '''') [str ''General Chat''] [str ''General''] []
     < 2 / 10
   \<and> calculate_relevance_score (str ''Hi'') (str '''') [str ''General Chat''] [str ''General''] []
     < float_lit (2 / 10)"
proof -
  have c1: "\<not> list_ex (\<lambda>cat. is_substring (str ''Project'') cat) [str ''General Chat'']"
    by (simp add: str_def)
  have c2: "\<not> list_ex (\<lambda>tag. tag \<in> set [str ''General''])
              [str ''Framework'', str ''Template'', str ''System'']"
    by (simp add: str_def)
  have c3: "\<not> list_ex (\<lambda>tag. tag \<in> set [str ''General''])
              [str ''Email Sequence'', str ''Landing Page'', str ''Sales Page'']"
    by (simp add: str_def)
  have c4: "\<not> 10 < length ([] :: pystr list)" by simp
  have c5: "\<not> (str ''Business Strategy'' \<in> set [str ''General Chat'']
              \<or> str ''Analysis'' \<in> set [str ''General''])"
    by (simp add: str_def)
  have c7: "length ([] :: pystr list) < 3" by simp
  have v: "calculate_relevance_score (str ''Hi'') (str '''') [str ''General Chat''] [str ''General''] []
     = 7205759403792793 / 36028797018963968"
    unfolding calculate_relevance_score_chain
    by (simp only: c1 c2 c3 c4 c5 c7 plus_if_def minus_if_def if_True if_False refl lowest_score)
  have f: "float_lit (2 / 10) = 3602879701896397 / 18014398509481984"
    by (rule float_lit_fifth)
  show ?thesis unfolding v f by simp
qed

text \<open>
  Claim C10, amended. For every input the score is at least 0.19999999999999998 (the
  double that 0.5 - 0.2 - 0.1 evaluates to), hence above 0.1: the lower bound of the clamp
  is never attained.
\<close>

theorem relevance_score_lower_bound:
  "7205759403792793 / 36028797018963968 \<le> calculate_relevance_score title descr cats tgs msgs
   \<and> float_lit (1 / 10) < calculate_relevance_score title descr cats tgs msgs
   \<and> 1 / 10 < calculate_relevance_score title descr cats tgs msgs"
proof -
  define X where "X =
       minus_if (length msgs < 3) (float_lit (1 / 10))
       (minus_if (cats = [str ''General Chat'']) (float_lit (2 / 10))
       (plus_if (str ''Business Strategy'' \<in> set cats \<or> str ''Analysis'' \<in> set tgs) (float_lit (1 / 10))
       (plus_if (10 < length msgs) (float_lit (1 / 10))
       (plus_if (list_ex (\<lambda>tag. tag \<in> set tgs)
                  [str ''Email Sequence'', str ''Landing Page'', str ''Sales Page'']) (float_lit (15 / 100))
       (plus_if (list_ex (\<lambda>tag. tag \<in> set tgs)
                  [str ''Framework'', str ''Template'', str ''System'']) (float_lit (15 / 100))
       (plus_if (list_ex (\<lambda>cat. is_substring (str ''Project'') cat) cats) (float_lit (2 / 10))
          (float_lit (5 / 10))))))))"
  have lower: "7205759403792793 / 36028797018963968 \<le> X"
    unfolding X_def by (rule score_before_clamp_lower)
  have eq: "calculate_relevance_score title descr cats tgs msgs
      = min (max X (float_lit (1 / 10))) (float_lit 1)"
    unfolding X_def by (rule calculate_relevance_score_chain)
  have t: "float_lit (1 / 10) = 3602879701896397 / 36028797018963968"
    by (rule float_lit_tenth)
  have o: "float_lit 1 = 1" by (rule float_lit_one)
  from lower show ?thesis
    unfolding eq t o by (simp add: min_def max_def)
qed

section \<open>The messages of a raw block\<close>












end
